theory Spec2Isabelle
  imports Main "HOL-Library.Log_Nat"
begin

section \<open>Calendar days, Date objects and the clock\<close>

text \<open>
  The habit model of \<^verbatim>\<open>js/habit.js\<close> works on two representations of time.

  \<^item> A \<^emph>\<open>date key\<close> is the string \<^verbatim>\<open>YYYY-MM-DD\<close>. A well-formed key is
    represented here by the number of its calendar day, counted from 1970-01-01
    (day 0, a Thursday). For zero-padded keys with four-digit years the order of the
    strings, which \<^verbatim>\<open>Array.prototype.sort()\<close> uses, is the order of the day numbers.
  \<^item> A JavaScript \<^verbatim>\<open>Date\<close> object is an instant: milliseconds since the epoch.
    Its calendar fields (\<^verbatim>\<open>getDay\<close>, \<^verbatim>\<open>getDate\<close>, \<^verbatim>\<open>getFullYear\<close>, ...) are read in
    local time.

  The wall clock (\<^verbatim>\<open>new Date()\<close>, \<^verbatim>\<open>Date.now()\<close>) and the local time zone are the
  environment of every operation and are passed explicitly. The zone is given by the
  offset from UTC that is in force now and by the times at which daylight-saving time,
  one hour ahead of standard time, is in force.

  \<^verbatim>\<open>calculateStreak\<close> starts at local midnight and only reads the calendar day and
  the weekday of the dates it steps through; its dates are kept in today's clock (the
  offset in force now), where \<^verbatim>\<open>d.setDate(d.getDate() + n)\<close> moves by \<open>n\<close> whole days.
  \<^verbatim>\<open>getStatistics\<close> compares dates that it builds from date keys, at midnight UTC; there
  \<^verbatim>\<open>setDate\<close> is the step of one local calendar day, 23 or 25 hours long when the
  clock changes, and the weekday is read with the offset in force at that date.
\<close>

type_synonym date_key = int
type_synonym timestamp = int

text \<open>\<open>now\<close> is the current instant; \<open>utcOffset\<close> is the number of milliseconds by which
  local time is ahead of UTC now (negative west of Greenwich); \<open>summerTime t\<close> tells
  whether daylight-saving time is in force at the instant \<open>t\<close>. A zone whose offset
  never changes has \<open>summerTime = (\<lambda>t. False)\<close>.\<close>

record clock =
  now :: timestamp
  utcOffset :: int
  summerTime :: "timestamp \<Rightarrow> bool"

definition msPerDay :: int where
  "msPerDay = 1000 * 60 * 60 * 24"

definition msPerHour :: int where
  "msPerHour = 1000 * 60 * 60"

text \<open>The offset of standard time, and \<open>LocalTZA(t, isUTC)\<close> of ECMAScript: the offset
  of local time at the instant \<open>t\<close> (\<open>isUTC\<close>) or at the local time \<open>t\<close> (not \<open>isUTC\<close>).
  A local time that the clock skips or shows twice is read with the offset before the
  change.\<close>

definition standardOffset :: "clock \<Rightarrow> int" where
  "standardOffset c = utcOffset c - (if summerTime c (now c) then msPerHour else 0)"

definition LocalTZA :: "clock \<Rightarrow> int \<Rightarrow> bool \<Rightarrow> int" where
  "LocalTZA c t isUTC =
     standardOffset c
       + (if summerTime c (if isUTC then t else t - standardOffset c - msPerHour)
          then msPerHour else 0)"

text \<open>\<^verbatim>\<open>new Date("YYYY-MM-DD")\<close>: a date-only ISO string is parsed as midnight UTC.\<close>

definition newDate :: "date_key \<Rightarrow> timestamp" where
  "newDate k = k * msPerDay"

text \<open>\<^verbatim>\<open>new Date(year, month - 1, day)\<close>: midnight of that day in local time.\<close>

definition newDateLocal :: "int \<Rightarrow> date_key \<Rightarrow> timestamp" where
  "newDateLocal tz k = k * msPerDay - tz"

text \<open>The local calendar day an instant falls on, as a key: what
  \<^verbatim>\<open>_normalizeDate\<close> assembles from \<^verbatim>\<open>getFullYear\<close>, \<^verbatim>\<open>getMonth\<close>, \<^verbatim>\<open>getDate\<close>.\<close>

definition localDay :: "int \<Rightarrow> timestamp \<Rightarrow> date_key" where
  "localDay tz t = (t + tz) div msPerDay"

text \<open>\<^verbatim>\<open>toISOString().split('T')[0]\<close>: the UTC calendar day of an instant.\<close>

definition toISODate :: "timestamp \<Rightarrow> date_key" where
  "toISODate t = t div msPerDay"

definition weekdayOf :: "date_key \<Rightarrow> int" where
  "weekdayOf k = (k + 4) mod 7"

text \<open>\<^verbatim>\<open>getDay()\<close>: 0 = Sunday .. 6 = Saturday, of the local calendar day.\<close>

definition getDay :: "int \<Rightarrow> timestamp \<Rightarrow> int" where
  "getDay tz t = weekdayOf (localDay tz t)"

text \<open>\<^verbatim>\<open>d.setDate(d.getDate() + n)\<close> in a clock that does not change.\<close>

definition addDays :: "timestamp \<Rightarrow> int \<Rightarrow> timestamp" where
  "addDays t n = t + n * msPerDay"

text \<open>\<^verbatim>\<open>d.setDate(d.getDate() + 1)\<close> as ECMAScript defines it: the local time of the
  date, one calendar day later, taken back to UTC.\<close>

definition setDateNext :: "clock \<Rightarrow> timestamp \<Rightarrow> timestamp" where
  "setDateNext c t =
     (let localTime = t + LocalTZA c t True;
          moved = localTime + msPerDay
      in moved - LocalTZA c moved False)"

text \<open>\<^verbatim>\<open>d.setHours(0, 0, 0, 0)\<close>: back to local midnight.\<close>

definition setHours0 :: "int \<Rightarrow> timestamp \<Rightarrow> timestamp" where
  "setHours0 tz t = t - (t + tz) mod msPerDay"

text \<open>Arguments that the source accepts in several shapes.\<close>

datatype date_arg = DateStr date_key | DateObj timestamp

datatype day_arg = DayNum int | DayDate timestamp | DayStr date_key

section \<open>The Habit entity\<close>

text \<open>
  The fields of the class, as the constructor leaves them: \<^verbatim>\<open>createdDate\<close> is a date
  key (a missing one is replaced by the current UTC day), \<^verbatim>\<open>completions\<close> and
  \<^verbatim>\<open>tags\<close> are arrays, \<^verbatim>\<open>notes\<close> is a string, \<^verbatim>\<open>notificationTime\<close> and
  \<^verbatim>\<open>daysOfWeek\<close> may be \<^verbatim>\<open>null\<close>. The constructor does not validate the elements of
  \<^verbatim>\<open>daysOfWeek\<close>: they are day numbers, possibly out of range, repeated or unsorted.
  The fields \<^verbatim>\<open>id\<close> and \<^verbatim>\<open>notes\<close> are called \<open>habit_id\<close> and \<open>habit_notes\<close> here.
\<close>

record habit =
  habit_id :: string
  name :: string
  createdDate :: date_key
  completions :: "date_key list"
  notificationTime :: "string option"
  daysOfWeek :: "int list option"
  habit_notes :: string
  tags :: "string list"

text \<open>The plain object of \<^verbatim>\<open>toJSON\<close>/\<^verbatim>\<open>fromJSON\<close>. A field that may be missing
  or \<^verbatim>\<open>null\<close> in a stored record is an option.\<close>

record habit_json =
  json_id :: string
  json_name :: string
  json_createdDate :: "date_key option"
  json_completions :: "date_key list option"
  json_notificationTime :: "string option"
  json_daysOfWeek :: "int list option"
  json_notes :: "string option"
  json_tags :: "string list option"

datatype error = InvalidTimeFormat | InvalidDaysArray

text \<open>The constructor. \<open>fresh\<close> is the identifier that \<^verbatim>\<open>_generateId\<close> draws from
  the clock and the random generator. \<^verbatim>\<open>x || d\<close> takes \<open>d\<close> for a missing value.\<close>

definition Habit ::
  "clock \<Rightarrow> string \<Rightarrow> string \<Rightarrow> date_key option \<Rightarrow> date_key list option \<Rightarrow> string option
     \<Rightarrow> int list option \<Rightarrow> string option \<Rightarrow> string list option \<Rightarrow> habit" where
  "Habit c fresh nm created comps ntime dows nts tgs =
     \<lparr> habit_id = fresh,
       name = nm,
       createdDate = (case created of Some k \<Rightarrow> k | None \<Rightarrow> toISODate (now c)),
       completions = (case comps of Some cs \<Rightarrow> cs | None \<Rightarrow> []),
       notificationTime = ntime,
       daysOfWeek = dows,
       habit_notes = (case nts of Some s \<Rightarrow> s | None \<Rightarrow> []),
       tags = (case tgs of Some ts \<Rightarrow> ts | None \<Rightarrow> []) \<rparr>"

text \<open>\<^verbatim>\<open>_normalizeDate\<close>: of a string, the part before \<^verbatim>\<open>T\<close>, which is its date
  key; of a \<^verbatim>\<open>Date\<close>, the key of its local calendar day.\<close>

definition normalizeDate :: "int \<Rightarrow> date_arg \<Rightarrow> date_key" where
  "normalizeDate tz d = (case d of DateStr k \<Rightarrow> k | DateObj t \<Rightarrow> localDay tz t)"

subsection \<open>Completion tracking\<close>

text \<open>\<^verbatim>\<open>xs.indexOf(x)\<close>: the first position of \<open>x\<close>, or -1.\<close>

fun indexOf :: "'a list \<Rightarrow> 'a \<Rightarrow> int" where
  "indexOf [] x = -1"
| "indexOf (y # ys) x = (if y = x then 0 else (let i = indexOf ys x in if i > -1 then i + 1 else -1))"

text \<open>\<^verbatim>\<open>xs.splice(i, 1)\<close> for an index inside the array.\<close>

definition splice1 :: "'a list \<Rightarrow> nat \<Rightarrow> 'a list" where
  "splice1 xs i = take i xs @ drop (Suc i) xs"

definition markCompleted :: "int \<Rightarrow> date_arg \<Rightarrow> habit \<Rightarrow> habit" where
  "markCompleted tz d h =
     (let dateStr = normalizeDate tz d in
      if dateStr \<notin> set (completions h)
      then h\<lparr>completions := sort (completions h @ [dateStr])\<rparr>
      else h)"

definition markIncomplete :: "int \<Rightarrow> date_arg \<Rightarrow> habit \<Rightarrow> habit" where
  "markIncomplete tz d h =
     (let dateStr = normalizeDate tz d;
          index = indexOf (completions h) dateStr in
      if index > -1
      then h\<lparr>completions := splice1 (completions h) (nat index)\<rparr>
      else h)"

definition isCompletedOn :: "int \<Rightarrow> habit \<Rightarrow> date_arg \<Rightarrow> bool" where
  "isCompletedOn tz h d = (normalizeDate tz d \<in> set (completions h))"

text \<open>A sequence of calls of the two mutators.\<close>

datatype call = MarkCompleted date_arg | MarkIncomplete date_arg

fun perform :: "int \<Rightarrow> call \<Rightarrow> habit \<Rightarrow> habit" where
  "perform tz (MarkCompleted d) h = markCompleted tz d h"
| "perform tz (MarkIncomplete d) h = markIncomplete tz d h"

fun perform_all :: "int \<Rightarrow> call list \<Rightarrow> habit \<Rightarrow> habit" where
  "perform_all tz [] h = h"
| "perform_all tz (c # cs) h = perform_all tz cs (perform tz c h)"

subsection \<open>Serialization\<close>

definition toJSON :: "habit \<Rightarrow> habit_json" where
  "toJSON h =
     \<lparr> json_id = habit_id h,
       json_name = name h,
       json_createdDate = Some (createdDate h),
       json_completions = Some (completions h),
       json_notificationTime = notificationTime h,
       json_daysOfWeek = daysOfWeek h,
       json_notes = Some (habit_notes h),
       json_tags = Some (tags h) \<rparr>"

definition fromJSON :: "clock \<Rightarrow> string \<Rightarrow> habit_json \<Rightarrow> habit" where
  "fromJSON c fresh obj =
     (let habit = Habit c fresh (json_name obj) (json_createdDate obj) (json_completions obj)
                    (json_notificationTime obj) (json_daysOfWeek obj) (json_notes obj) (json_tags obj)
      in habit\<lparr>habit_id := json_id obj\<rparr>)"

subsection \<open>Schedule evaluation\<close>

definition isActiveOnDay :: "int \<Rightarrow> habit \<Rightarrow> day_arg \<Rightarrow> bool" where
  "isActiveOnDay tz h dayOrDate =
     (case daysOfWeek h of
        None \<Rightarrow> True
      | Some ds \<Rightarrow>
          if length ds = 0 then True
          else (let dayOfWeek =
                  (case dayOrDate of
                     DayNum n \<Rightarrow> n
                   | DayDate t \<Rightarrow> getDay tz t
                   | DayStr k \<Rightarrow> getDay tz (newDateLocal tz k))
                in dayOfWeek \<in> set ds))"

subsection \<open>Current streak\<close>

text \<open>The \<^verbatim>\<open>while (daysChecked < 365)\<close> loop of \<^verbatim>\<open>calculateStreak\<close>; its state is
  \<^verbatim>\<open>currentDate\<close>, \<^verbatim>\<open>streak\<close>, \<^verbatim>\<open>checkingToday\<close> and \<^verbatim>\<open>daysChecked\<close>. The
  \<^verbatim>\<open>break\<close> returns the streak counted so far.\<close>

function streak_walk :: "int \<Rightarrow> habit \<Rightarrow> timestamp \<Rightarrow> nat \<Rightarrow> bool \<Rightarrow> nat \<Rightarrow> nat" where
  "streak_walk tz h currentDate streak checkingToday daysChecked =
     (if daysChecked < 365 then
        (let dateStr = normalizeDate tz (DateObj currentDate) in
         if isActiveOnDay tz h (DayDate currentDate) then
           (if isCompletedOn tz h (DateStr dateStr) then
              streak_walk tz h (addDays currentDate (- 1)) (streak + 1) False (daysChecked + 1)
            else if checkingToday then
              streak_walk tz h (addDays currentDate (- 1)) streak False (daysChecked + 1)
            else streak)
         else streak_walk tz h (addDays currentDate (- 1)) streak checkingToday (daysChecked + 1))
      else streak)"
  by pat_completeness auto
termination
  by (relation "measure (\<lambda>(tz, h, currentDate, streak, checkingToday, daysChecked). 365 - daysChecked)")
    auto

definition calculateStreak :: "clock \<Rightarrow> habit \<Rightarrow> nat" where
  "calculateStreak c h =
     (if length (completions h) = 0 then 0
      else (let today = setHours0 (utcOffset c) (now c)
            in streak_walk (utcOffset c) h today 0 True 0))"

subsection \<open>Statistics\<close>

text \<open>The inner loop of the longest-streak computation: \<^verbatim>\<open>checkDate\<close> runs from the
  day after the previous completion up to, but excluding, \<^verbatim>\<open>currDate\<close>; the result is
  the final value of \<^verbatim>\<open>allScheduledDaysCompleted\<close>. \<^verbatim>\<open>isActiveOnDay(checkDate)\<close> reads
  the weekday of \<^verbatim>\<open>checkDate\<close> with the offset in force at that instant.\<close>

function allScheduledDaysCompleted :: "clock \<Rightarrow> habit \<Rightarrow> timestamp \<Rightarrow> timestamp \<Rightarrow> bool" where
  "allScheduledDaysCompleted c h checkDate currDate =
     (if checkDate < currDate then
        (if isActiveOnDay (LocalTZA c checkDate True) h (DayDate checkDate) then False
         else allScheduledDaysCompleted c h (setDateNext c checkDate) currDate)
      else True)"
  by pat_completeness auto
termination
  by (relation "measure (\<lambda>(c, h, checkDate, currDate). nat (currDate - checkDate))")
    (auto simp: setDateNext_def LocalTZA_def Let_def msPerDay_def msPerHour_def)

text \<open>The \<^verbatim>\<open>for\<close> loop over \<^verbatim>\<open>sortedCompletions\<close> from index 1 on: \<open>prv\<close> is
  \<^verbatim>\<open>sortedCompletions[i - 1]\<close>, the list holds the entries from index \<open>i\<close>. The result is
  the pair of \<^verbatim>\<open>longestStreak\<close> and \<^verbatim>\<open>tempStreak\<close> when the loop ends.\<close>

fun longest_scan :: "clock \<Rightarrow> habit \<Rightarrow> date_key \<Rightarrow> date_key list \<Rightarrow> nat \<Rightarrow> nat \<Rightarrow> nat \<times> nat" where
  "longest_scan c h prv [] longestStreak tempStreak = (longestStreak, tempStreak)"
| "longest_scan c h prv (cur # later) longestStreak tempStreak =
     (let prevDate = newDate prv;
          currDate = newDate cur
      in if allScheduledDaysCompleted c h (setDateNext c prevDate) currDate
         then longest_scan c h cur later longestStreak (tempStreak + 1)
         else longest_scan c h cur later (max longestStreak tempStreak) 1)"

definition longestStreakOf :: "clock \<Rightarrow> habit \<Rightarrow> nat" where
  "longestStreakOf c h =
     (case sort (completions h) of
        [] \<Rightarrow> max 0 0
      | k # later \<Rightarrow>
          (case longest_scan c h k later 0 1 of
             (longestStreak, tempStreak) \<Rightarrow> max longestStreak tempStreak))"

text \<open>The loop \<^verbatim>\<open>while (checkDate <= today)\<close> that counts the scheduled days.\<close>

function countScheduled :: "clock \<Rightarrow> habit \<Rightarrow> timestamp \<Rightarrow> timestamp \<Rightarrow> int \<Rightarrow> int" where
  "countScheduled c h checkDate today scheduledDaysPassed =
     (if checkDate \<le> today then
        countScheduled c h (setDateNext c checkDate) today
          (if isActiveOnDay (LocalTZA c checkDate True) h (DayDate checkDate)
           then scheduledDaysPassed + 1
           else scheduledDaysPassed)
      else scheduledDaysPassed)"
  by pat_completeness auto
termination
  by (relation "measure (\<lambda>(c, h, checkDate, today, n). nat (today - checkDate + 1))")
    (auto simp: setDateNext_def LocalTZA_def Let_def msPerDay_def msPerHour_def)

text \<open>
  Numbers in JavaScript are IEEE-754 doubles. The completion rate is the one place where
  the source leaves the integers: \<^verbatim>\<open>Math.round((totalCompletions / scheduledDaysPassed) * 100)\<close>
  rounds the quotient to a double, rounds the product to a double, and then rounds to an
  integer. \<open>toDouble\<close> is the rounding of a rational to the nearest number with a
  53-bit significand, ties to the even significand (the exponent range is not modelled:
  the operands here are counts far away from overflow and underflow).
\<close>

definition floorLog2 :: "rat \<Rightarrow> int" where
  "floorLog2 q =
     (case quotient_of q of
        (a, b) \<Rightarrow> (let l = bitlen a - bitlen b in if 2 powi l \<le> q then l else l - 1))"

definition roundHalfEven :: "rat \<Rightarrow> int" where
  "roundHalfEven t =
     (let f = \<lfloor>t\<rfloor>; r = t - of_int f
      in if r < 1 / 2 then f else if 1 / 2 < r then f + 1 else if even f then f else f + 1)"

definition toDouble :: "rat \<Rightarrow> rat" where
  "toDouble q =
     (if q = 0 then 0
      else (let e = floorLog2 \<bar>q\<bar> - 52
            in sgn q * of_int (roundHalfEven (\<bar>q\<bar> / 2 powi e)) * 2 powi e))"

text \<open>\<^verbatim>\<open>Math.round\<close>: the nearest integer, a tie going to the larger one.\<close>

definition Math_round :: "rat \<Rightarrow> int" where
  "Math_round x = \<lfloor>x + 1 / 2\<rfloor>"

text \<open>The object that \<^verbatim>\<open>getStatistics\<close> returns. \<^verbatim>\<open>daysSinceCreation\<close> is
  \<^verbatim>\<open>Math.floor((today - createdDateObj) / msPerDay) + 1\<close>, the floor of a quotient of
  two integers; \<^verbatim>\<open>today\<close> is the current instant, not midnight.\<close>

record statistics =
  totalCompletions :: nat
  currentStreak :: nat
  longestStreak :: nat
  completionRate :: int
  daysSinceCreation :: int
  scheduledDaysPassed :: int

definition getStatistics :: "clock \<Rightarrow> habit \<Rightarrow> statistics" where
  "getStatistics c h =
     (let total = length (completions h);
          createdDateObj = newDate (createdDate h);
          today = now c;
          days = (today - createdDateObj) div msPerDay + 1;
          scheduled =
            (case daysOfWeek h of
               None \<Rightarrow> days
             | Some ds \<Rightarrow>
                 if length ds > 0 then countScheduled c h createdDateObj today 0
                 else days);
          rate =
            (if scheduled > 0
             then Math_round (toDouble (toDouble (of_nat total / of_int scheduled) * 100))
             else 0)
      in \<lparr> totalCompletions = total,
           currentStreak = calculateStreak c h,
           longestStreak = longestStreakOf c h,
           completionRate = rate,
           daysSinceCreation = days,
           scheduledDaysPassed = scheduled \<rparr>)"

subsection \<open>Schedule mutator and label\<close>

text \<open>\<^verbatim>\<open>[...new Set(days)]\<close>: the elements in the order of their first occurrence.\<close>

fun setSpread :: "'a list \<Rightarrow> 'a list \<Rightarrow> 'a list" where
  "setSpread seen [] = seen"
| "setSpread seen (x # xs) = setSpread (if x \<in> set seen then seen else seen @ [x]) xs"

definition Number_isInteger :: "rat \<Rightarrow> bool" where
  "Number_isInteger d = (of_int \<lfloor>d\<rfloor> = d)"

text \<open>The argument of \<^verbatim>\<open>setDaysOfWeek\<close> is \<^verbatim>\<open>null\<close> or an array of numbers. The
  result is the exception thrown, if any, and the habit as the call leaves it. The
  accepted numbers are integers from 0 to 6, on which the default \<^verbatim>\<open>sort()\<close>
  (which compares the decimal strings) is the numeric order.\<close>

definition setDaysOfWeek :: "rat list option \<Rightarrow> habit \<Rightarrow> error option \<times> habit" where
  "setDaysOfWeek days h =
     (case days of
        None \<Rightarrow> (None, h\<lparr>daysOfWeek := None\<rparr>)
      | Some ds \<Rightarrow>
          if length ds = 0 then (None, h\<lparr>daysOfWeek := None\<rparr>)
          else if list_all (\<lambda>d. Number_isInteger d \<and> d \<ge> 0 \<and> d \<le> 6) ds
          then (None, h\<lparr>daysOfWeek := Some (sort (setSpread [] (map floor ds)))\<rparr>)
          else (Some InvalidDaysArray, h))"

definition dayNames :: "string list" where
  "dayNames = [''Sun'', ''Mon'', ''Tue'', ''Wed'', ''Thu'', ''Fri'', ''Sat'']"

text \<open>\<^verbatim>\<open>dayNames[d]\<close> as \<^verbatim>\<open>join\<close> prints it: an index outside the array gives
  \<^verbatim>\<open>undefined\<close>, which is printed as the empty string.\<close>

definition dayName :: "int \<Rightarrow> string" where
  "dayName d = (if 0 \<le> d \<and> d < 7 then dayNames ! nat d else [])"

fun join :: "string \<Rightarrow> string list \<Rightarrow> string" where
  "join sep [] = []"
| "join sep [x] = x"
| "join sep (x # y # ys) = x @ sep @ join sep (y # ys)"

definition getDaysOfWeekString :: "habit \<Rightarrow> string" where
  "getDaysOfWeekString h =
     (case daysOfWeek h of
        None \<Rightarrow> ''Every day''
      | Some ds \<Rightarrow>
          if length ds = 0 then ''Every day''
          else if length ds = 7 then ''Every day''
          else if length ds = 5 \<and> list_all (\<lambda>d. d \<ge> 1 \<and> d \<le> 5) ds then ''Weekdays''
          else if length ds = 2 \<and> 0 \<in> set ds \<and> 6 \<in> set ds then ''Weekends''
          else join '', '' (map dayName ds))"

section \<open>Notions used in the statements\<close>

text \<open>The invariant that the data model states for \<^verbatim>\<open>daysOfWeek\<close>: ascending, no
  duplicates, every element a weekday number.\<close>

definition scheduleInvariant :: "habit \<Rightarrow> bool" where
  "scheduleInvariant h =
     (case daysOfWeek h of None \<Rightarrow> True
      | Some ds \<Rightarrow> sorted ds \<and> distinct ds \<and> list_all (\<lambda>d. 0 \<le> d \<and> d \<le> 6) ds)"




text \<open>A zone whose offset from UTC never changes.\<close>

definition fixedOffset :: "clock \<Rightarrow> bool" where
  "fixedOffset c = (\<forall>t. \<not> summerTime c t)"



section \<open>The walks as the specification words them\<close>

text \<open>The two definitions of this section follow the words of the specification, not the
  source; they are what the loops of the source are compared with.\<close>

text \<open>The streak walk of the specification (section 4.3): it is the loop of
  \<^verbatim>\<open>calculateStreak\<close> except that a scheduled day without completion is tolerated only
  when it is the first day examined, today itself.\<close>

function spec_streak_walk :: "int \<Rightarrow> habit \<Rightarrow> timestamp \<Rightarrow> nat \<Rightarrow> nat \<Rightarrow> nat" where
  "spec_streak_walk tz h currentDate streak daysChecked =
     (if daysChecked < 365 then
        (if isActiveOnDay tz h (DayDate currentDate) then
           (if isCompletedOn tz h (DateObj currentDate) then
              spec_streak_walk tz h (addDays currentDate (- 1)) (streak + 1) (daysChecked + 1)
            else if daysChecked = 0 then
              spec_streak_walk tz h (addDays currentDate (- 1)) streak (daysChecked + 1)
            else streak)
         else spec_streak_walk tz h (addDays currentDate (- 1)) streak (daysChecked + 1))
      else streak)"
  by pat_completeness auto
termination
  by (relation "measure (\<lambda>(tz, h, currentDate, streak, daysChecked). 365 - daysChecked)") auto

definition spec_calculateStreak :: "clock \<Rightarrow> habit \<Rightarrow> nat" where
  "spec_calculateStreak c h =
     (if completions h = [] then 0
      else spec_streak_walk (utcOffset c) h (setHours0 (utcOffset c) (now c)) 0 0)"

text \<open>The longest streak of the specification (section 4.4): two consecutive completion
  days continue a run exactly when no calendar day strictly between them is a scheduled
  day. The schedule check on a calendar day is \<^verbatim>\<open>isActiveOnDay\<close> on its key.\<close>

definition spec_gapUnscheduled :: "int \<Rightarrow> habit \<Rightarrow> date_key \<Rightarrow> date_key \<Rightarrow> bool" where
  "spec_gapUnscheduled tz h prv cur =
     list_all (\<lambda>d. \<not> isActiveOnDay tz h (DayStr d)) [prv + 1 .. cur - 1]"

fun spec_longest_scan :: "int \<Rightarrow> habit \<Rightarrow> date_key \<Rightarrow> date_key list \<Rightarrow> nat \<Rightarrow> nat \<Rightarrow> nat \<times> nat" where
  "spec_longest_scan tz h prv [] longest temp = (longest, temp)"
| "spec_longest_scan tz h prv (cur # later) longest temp =
     (if spec_gapUnscheduled tz h prv cur
      then spec_longest_scan tz h cur later longest (temp + 1)
      else spec_longest_scan tz h cur later (max longest temp) 1)"

definition spec_longestStreak :: "int \<Rightarrow> habit \<Rightarrow> nat" where
  "spec_longestStreak tz h =
     (case sort (completions h) of
        [] \<Rightarrow> 0
      | k # later \<Rightarrow>
          (case spec_longest_scan tz h k later 0 1 of
             (longest, temp) \<Rightarrow> max longest temp))"

section \<open>Sample data\<close>

text \<open>Day 19737 is Monday 2024-01-15; day 19739 is Wednesday 2024-01-17.\<close>

definition sample_habit :: habit where
  "sample_habit =
     \<lparr> habit_id = ''habit_1705312800000_k3j9x2m1q'', name = ''Read'', createdDate = 19700,
       completions = [19737, 19739], notificationTime = Some ''09:00'', daysOfWeek = Some [2],
       habit_notes = ''ten pages'', tags = [''mind''] \<rparr>"

text \<open>Wednesday 2024-01-17, 12:00 UTC, in a zone one hour ahead of UTC.\<close>

definition sample_clock :: clock where
  "sample_clock =
     \<lparr> now = 19739 * msPerDay + 12 * 3600000, utcOffset = 3600000, summerTime = (\<lambda>t. False) \<rparr>"

definition daily_habit :: habit where
  "daily_habit = sample_habit\<lparr>daysOfWeek := None, completions := [19737, 19738, 19739]\<rparr>"


text \<open>A habit scheduled on Mondays only, completed on Monday 2024-01-08 (day 19730)
  and not on Monday 2024-01-15.\<close>

definition monday_habit :: habit where
  "monday_habit = sample_habit\<lparr>daysOfWeek := Some [1], completions := [19730]\<rparr>"

text \<open>A habit scheduled on Mondays and Wednesdays, completed on Monday 2024-01-15 and
  Wednesday 2024-01-17, and a clock five hours behind UTC on that Wednesday at noon.\<close>

definition mon_wed_habit :: habit where
  "mon_wed_habit = sample_habit\<lparr>daysOfWeek := Some [1, 3], completions := [19737, 19739]\<rparr>"

definition new_york_clock :: clock where
  "new_york_clock =
     \<lparr> now = 19739 * msPerDay + 17 * 3600000, utcOffset = - 5 * 3600000,
       summerTime = (\<lambda>t. False) \<rparr>"













section \<open>Completion tracking keeps the completions ascending\<close>

lemma indexOf_found: "(- 1 < indexOf xs x) = (x \<in> set xs)"
  by (induction xs) (auto simp: Let_def)

lemma splice1_indexOf: "x \<in> set xs \<Longrightarrow> splice1 xs (nat (indexOf xs x)) = remove1 x xs"
proof (induction xs)
  case Nil
  then show ?case by simp
next
  case (Cons y ys)
  show ?case
  proof (cases "y = x")
    case True
    then show ?thesis by (simp add: splice1_def)
  next
    case False
    with Cons.prems have mem: "x \<in> set ys" by simp
    then have pos: "- 1 < indexOf ys x" by (simp add: indexOf_found)
    then have "nat (indexOf ys x + 1) = Suc (nat (indexOf ys x))" by simp
    with False pos Cons.IH [OF mem] show ?thesis
      by (simp add: splice1_def Let_def)
  qed
qed

lemma markIncomplete_completions:
  "completions (markIncomplete tz d h) = remove1 (normalizeDate tz d) (completions h)"
proof (cases "normalizeDate tz d \<in> set (completions h)")
  case True
  then show ?thesis
    by (simp add: markIncomplete_def Let_def indexOf_found splice1_indexOf)
next
  case False
  then show ?thesis
    by (simp add: markIncomplete_def Let_def indexOf_found remove1_idem)
qed

lemma markCompleted_completions:
  "completions (markCompleted tz d h) =
     (if normalizeDate tz d \<in> set (completions h) then completions h
      else sort (completions h @ [normalizeDate tz d]))"
  by (simp add: markCompleted_def Let_def)

lemma perform_keeps_ascending:
  assumes "sorted (completions h)" "distinct (completions h)"
  shows "sorted (completions (perform tz c h)) \<and> distinct (completions (perform tz c h))"
proof (cases c)
  case (MarkCompleted d)
  with assms show ?thesis by (simp add: markCompleted_completions)
next
  case (MarkIncomplete d)
  with assms show ?thesis by (simp add: markIncomplete_completions sorted_remove1)
qed

lemma perform_all_keeps_ascending:
  "sorted (completions h) \<Longrightarrow> distinct (completions h) \<Longrightarrow>
   sorted (completions (perform_all tz cs h)) \<and> distinct (completions (perform_all tz cs h))"
proof (induction cs arbitrary: h)
  case Nil
  then show ?case by simp
next
  case (Cons c cs)
  from perform_keeps_ascending [OF Cons.prems, of tz c]
  show ?case by (simp add: Cons.IH)
qed

lemma markCompleted_twice: "markCompleted tz d (markCompleted tz d h) = markCompleted tz d h"
  by (simp add: markCompleted_def Let_def)

text \<open>
  Claim C4. From a habit whose completions are strictly ascending (hence without a
  duplicate day), every sequence of \<^verbatim>\<open>markCompleted\<close> and \<^verbatim>\<open>markIncomplete\<close> calls
  leaves them strictly ascending and free of duplicates. Calling \<^verbatim>\<open>markCompleted(d)\<close>
  twice gives the habit that one call gives, and on a day that is already completed the
  call changes nothing.
\<close>

theorem C4_completions_stay_ascending:
  assumes "sorted_wrt (<) (completions h)"
  shows "sorted_wrt (<) (completions (perform_all tz cs h))
    \<and> distinct (completions (perform_all tz cs h))
    \<and> markCompleted tz d (markCompleted tz d h) = markCompleted tz d h
    \<and> (isCompletedOn tz h d \<longrightarrow> markCompleted tz d h = h)"
proof -
  from assms have "sorted (completions h)" "distinct (completions h)"
    by (simp_all add: strict_sorted_iff)
  then have "sorted (completions (perform_all tz cs h)) \<and> distinct (completions (perform_all tz cs h))"
    by (rule perform_all_keeps_ascending)
  then show ?thesis
    by (simp add: strict_sorted_iff markCompleted_twice) (simp add: markCompleted_def isCompletedOn_def)
qed

theorem C4_completions_stay_ascending_witness:
  "sorted_wrt (<) (completions sample_habit)
   \<and> completions (perform_all 0 [MarkCompleted (DateStr 19738), MarkIncomplete (DateStr 19737),
        MarkCompleted (DateStr 19730), MarkCompleted (DateStr 19738)] sample_habit) = [19730, 19738, 19739]
   \<and> sorted_wrt (<) [19730, 19738, 19739 :: int]
   \<and> markCompleted 0 (DateStr 19738) (markCompleted 0 (DateStr 19738) sample_habit)
        = markCompleted 0 (DateStr 19738) sample_habit
   \<and> isCompletedOn 0 sample_habit (DateStr 19739)
   \<and> markCompleted 0 (DateStr 19739) sample_habit = sample_habit"
proof -
  have a: "sorted_wrt (<) (completions sample_habit)" by (simp add: sample_habit_def)
  have b: "completions (perform_all 0 [MarkCompleted (DateStr 19738), MarkIncomplete (DateStr 19737),
        MarkCompleted (DateStr 19730), MarkCompleted (DateStr 19738)] sample_habit) = [19730, 19738, 19739]"
    by code_simp
  have c: "isCompletedOn 0 sample_habit (DateStr 19739)"
    by (simp add: sample_habit_def isCompletedOn_def normalizeDate_def)
  from C4_completions_stay_ascending [OF a, of 0 "[MarkCompleted (DateStr 19738),
        MarkIncomplete (DateStr 19737), MarkCompleted (DateStr 19730), MarkCompleted (DateStr 19738)]"
        "DateStr 19738"]
    C4_completions_stay_ascending [OF a, of 0 "[]" "DateStr 19739"]
  show ?thesis using a b c by simp
qed

section \<open>Serialization\<close>

text \<open>
  Claim C7. Deserializing the serialized record of a habit gives back the habit, equal
  in every field (id, name, createdDate, completions, notificationTime, daysOfWeek,
  notes, tags): the id is the stored one, whatever identifier the constructor generated.
\<close>

theorem C7_fromJSON_toJSON: "fromJSON c fresh (toJSON h) = h"
  by (simp add: fromJSON_def toJSON_def Habit_def)

text \<open>
  Claim C10. The constructor and \<^verbatim>\<open>fromJSON\<close> store the completions they are given as
  they are, neither sorted nor de-duplicated: the record with completions
  \<open>[19739, 19737, 19739]\<close>, unsorted and with a repeated day, yields a habit with exactly
  that sequence.
\<close>

theorem C10_construction_keeps_completions_verbatim:
  "completions (Habit c fresh nm created comps ntime dows nts tgs)
     = (case comps of Some cs \<Rightarrow> cs | None \<Rightarrow> [])
   \<and> completions (fromJSON c fresh obj)
     = (case json_completions obj of Some cs \<Rightarrow> cs | None \<Rightarrow> [])
   \<and> completions (fromJSON c fresh (obj\<lparr>json_completions := Some [19739, 19737, 19739]\<rparr>))
     = [19739, 19737, 19739]
   \<and> \<not> sorted [19739, 19737, 19739 :: int] \<and> \<not> distinct [19739, 19737, 19739 :: int]"
  by (simp add: fromJSON_def Habit_def)

section \<open>The schedule mutator\<close>

lemma setSpread_set: "set (setSpread seen xs) = set seen \<union> set xs"
  by (induction xs arbitrary: seen) auto

lemma setSpread_distinct: "distinct seen \<Longrightarrow> distinct (setSpread seen xs)"
  by (induction xs arbitrary: seen) auto

lemma isInteger_iff: "Number_isInteger d = (d \<in> \<int>)"
  unfolding Number_isInteger_def of_int_floor_cancel
  by (auto simp: Ints_def)

lemma setDaysOfWeek_clear:
  "days = None \<or> days = Some [] \<Longrightarrow> setDaysOfWeek days h = (None, h\<lparr>daysOfWeek := None\<rparr>)"
  by (auto simp: setDaysOfWeek_def)

lemma setDaysOfWeek_reject:
  assumes "\<exists>d\<in>set ds. \<not> (d \<in> \<int> \<and> 0 \<le> d \<and> d \<le> 6)"
  shows "setDaysOfWeek (Some ds) h = (Some InvalidDaysArray, h)"
proof -
  from assms have "ds \<noteq> []" by auto
  moreover from assms have "\<not> list_all (\<lambda>d. Number_isInteger d \<and> d \<ge> 0 \<and> d \<le> 6) ds"
    by (simp add: list_all_iff isInteger_iff)
  ultimately show ?thesis
    by (simp add: setDaysOfWeek_def)
qed

lemma setDaysOfWeek_store:
  assumes "ds \<noteq> []" and "\<forall>d\<in>set ds. d \<in> \<int> \<and> 0 \<le> d \<and> d \<le> 6"
  shows "\<exists>ks. setDaysOfWeek (Some ds) h = (None, h\<lparr>daysOfWeek := Some ks\<rparr>)
            \<and> sorted ks \<and> distinct ks \<and> of_int ` set ks = set ds"
proof -
  define ks where "ks = sort (setSpread [] (map floor ds))"
  from assms have valid: "list_all (\<lambda>d. Number_isInteger d \<and> d \<ge> 0 \<and> d \<le> 6) ds"
    by (simp add: list_all_iff isInteger_iff)
  with assms have "setDaysOfWeek (Some ds) h = (None, h\<lparr>daysOfWeek := Some ks\<rparr>)"
    by (simp add: setDaysOfWeek_def ks_def)
  moreover have "sorted ks" by (simp add: ks_def)
  moreover have "distinct ks" by (simp add: ks_def setSpread_distinct)
  moreover have "of_int ` set ks = set ds"
  proof -
    have "set ks = floor ` set ds" by (simp add: ks_def setSpread_set)
    then have "of_int ` set ks = (\<lambda>d. of_int \<lfloor>d\<rfloor>) ` set ds" by (simp add: image_image)
    also have "\<dots> = (\<lambda>d. d) ` set ds"
    proof (rule image_cong)
      fix d assume "d \<in> set ds"
      with assms have "d \<in> \<int>" by blast
      then show "of_int \<lfloor>d\<rfloor> = d" by (rule Ints_cases) simp
    qed simp
    finally show ?thesis by simp
  qed
  ultimately show ?thesis by blast
qed

lemma five_halves_not_int: "(5 / 2 :: rat) \<notin> \<int>"
proof
  assume "(5 / 2 :: rat) \<in> \<int>"
  then obtain k :: int where "(5 / 2 :: rat) = of_int k" by (auto simp: Ints_def)
  then have "(5 :: rat) = of_int (2 * k)" by simp
  then have "(of_int 5 :: rat) = of_int (2 * k)" by simp
  then have "(5 :: int) = 2 * k" by (simp only: of_int_eq_iff)
  then show False by presburger
qed

text \<open>
  Claim C8. \<^verbatim>\<open>setDaysOfWeek(days)\<close>: for \<^verbatim>\<open>null\<close> or an empty array the schedule is
  cleared to absent; when every element is an integer from 0 to 6, the stored list is
  ascending, free of duplicates and has exactly the given elements; when some element is
  out of range or not an integer, the validation error is raised and the habit is left
  as it was.
\<close>

theorem C8_setDaysOfWeek_contract:
  "(days = None \<or> days = Some [] \<longrightarrow> setDaysOfWeek days h = (None, h\<lparr>daysOfWeek := None\<rparr>))
   \<and> (days = Some ds \<and> ds \<noteq> [] \<and> (\<forall>d\<in>set ds. d \<in> \<int> \<and> 0 \<le> d \<and> d \<le> 6) \<longrightarrow>
        (\<exists>ks. setDaysOfWeek days h = (None, h\<lparr>daysOfWeek := Some ks\<rparr>)
            \<and> sorted ks \<and> distinct ks \<and> of_int ` set ks = set ds))
   \<and> (days = Some ds \<and> (\<exists>d\<in>set ds. \<not> (d \<in> \<int> \<and> 0 \<le> d \<and> d \<le> 6)) \<longrightarrow>
        setDaysOfWeek days h = (Some InvalidDaysArray, h))"
proof (intro conjI impI)
  assume "days = None \<or> days = Some []"
  then show "setDaysOfWeek days h = (None, h\<lparr>daysOfWeek := None\<rparr>)"
    by (rule setDaysOfWeek_clear)
next
  assume a: "days = Some ds \<and> ds \<noteq> [] \<and> (\<forall>d\<in>set ds. d \<in> \<int> \<and> 0 \<le> d \<and> d \<le> 6)"
  then have "ds \<noteq> []" and "\<forall>d\<in>set ds. d \<in> \<int> \<and> 0 \<le> d \<and> d \<le> 6" by blast+
  from setDaysOfWeek_store [OF this, of h] a
  show "\<exists>ks. setDaysOfWeek days h = (None, h\<lparr>daysOfWeek := Some ks\<rparr>)
            \<and> sorted ks \<and> distinct ks \<and> of_int ` set ks = set ds"
    by simp
next
  assume a: "days = Some ds \<and> (\<exists>d\<in>set ds. \<not> (d \<in> \<int> \<and> 0 \<le> d \<and> d \<le> 6))"
  then have "\<exists>d\<in>set ds. \<not> (d \<in> \<int> \<and> 0 \<le> d \<and> d \<le> 6)" by blast
  from setDaysOfWeek_reject [OF this, of h] a
  show "setDaysOfWeek days h = (Some InvalidDaysArray, h)" by simp
qed

theorem C8_setDaysOfWeek_contract_witness:
  "setDaysOfWeek None sample_habit = (None, sample_habit\<lparr>daysOfWeek := None\<rparr>)
   \<and> setDaysOfWeek (Some [5, 1, 5, 3]) sample_habit = (None, sample_habit\<lparr>daysOfWeek := Some [1, 3, 5]\<rparr>)
   \<and> setDaysOfWeek (Some [1, 7]) sample_habit = (Some InvalidDaysArray, sample_habit)
   \<and> setDaysOfWeek (Some [1, 5 / 2]) sample_habit = (Some InvalidDaysArray, sample_habit)"
proof -
  have bad: "\<exists>d\<in>set [1, 5 / 2 :: rat]. \<not> (d \<in> \<int> \<and> 0 \<le> d \<and> d \<le> 6)"
    using five_halves_not_int by simp
  have bad7: "\<exists>d\<in>set [1, 7 :: rat]. \<not> (d \<in> \<int> \<and> 0 \<le> d \<and> d \<le> 6)" by simp
  have good: "\<forall>d\<in>set [5, 1, 5, 3 :: rat]. d \<in> \<int> \<and> 0 \<le> d \<and> d \<le> 6" by simp
  have stored: "setDaysOfWeek (Some [5, 1, 5, 3]) sample_habit
      = (None, sample_habit\<lparr>daysOfWeek := Some [1, 3, 5]\<rparr>)"
    by (simp add: setDaysOfWeek_def Number_isInteger_def)
  have c1: "setDaysOfWeek None sample_habit = (None, sample_habit\<lparr>daysOfWeek := None\<rparr>)"
    using C8_setDaysOfWeek_contract [of None sample_habit "[]"] by simp
  have c2: "setDaysOfWeek (Some [1, 7]) sample_habit = (Some InvalidDaysArray, sample_habit)"
    using C8_setDaysOfWeek_contract [of "Some [1, 7]" sample_habit "[1, 7]"] bad7 by blast
  have c3: "setDaysOfWeek (Some [1, 5 / 2]) sample_habit = (Some InvalidDaysArray, sample_habit)"
    using C8_setDaysOfWeek_contract [of "Some [1, 5 / 2]" sample_habit "[1, 5 / 2]"] bad by blast
  have c4: "\<exists>ks. setDaysOfWeek (Some [5, 1, 5, 3]) sample_habit
              = (None, sample_habit\<lparr>daysOfWeek := Some ks\<rparr>)
            \<and> sorted ks \<and> distinct ks \<and> of_int ` set ks = set [5, 1, 5, 3 :: rat]"
    using C8_setDaysOfWeek_contract [of "Some [5, 1, 5, 3]" sample_habit "[5, 1, 5, 3]"] good by blast
  from c1 c2 c3 c4 stored show ?thesis by simp
qed

section \<open>The schedule label\<close>

lemma sorted_distinct_determined:
  assumes "sorted ds" "distinct ds" "set ds \<subseteq> S" "finite S" "card S = length ds"
    "sorted ks" "distinct ks" "set ks = S"
  shows "ds = (ks :: int list)"
proof -
  from assms have "card (set ds) = card S" by (simp add: distinct_card)
  with assms have "set ds = S" by (simp add: card_subset_eq)
  with assms show ?thesis by (simp add: sorted_distinct_set_unique)
qed

lemma whole_week:
  assumes "sorted ds" "distinct ds" "set ds \<subseteq> {0..6}" "length ds = 7"
  shows "ds = [0, 1, 2, 3, 4, 5, 6 :: int]"
proof (rule sorted_distinct_determined [OF assms(1,2,3)])
  show "set [0, 1, 2, 3, 4, 5, 6 :: int] = {0..6}" by auto
qed (simp_all add: assms)

lemma working_week:
  assumes "sorted ds" "distinct ds" "set ds \<subseteq> {1..5}" "length ds = 5"
  shows "ds = [1, 2, 3, 4, 5 :: int]"
proof (rule sorted_distinct_determined [OF assms(1,2,3)])
  show "set [1, 2, 3, 4, 5 :: int] = {1..5}" by auto
qed (simp_all add: assms)

lemma weekend:
  assumes "sorted ds" "distinct ds" "0 \<in> set ds" "6 \<in> set ds" "length ds = 2"
  shows "ds = [0, 6 :: int]"
proof -
  from assms(2,5) have "card (set ds) = 2" by (simp add: distinct_card)
  moreover from assms have "{0, 6} \<subseteq> set ds" by simp
  moreover have "card {0, 6 :: int} = 2" by simp
  ultimately have "set ds = {0, 6}"
    by (metis card_subset_eq List.finite_set)
  with assms show ?thesis
    by (intro sorted_distinct_set_unique) simp_all
qed

lemma take3_join: "length x = 3 \<Longrightarrow> take 3 (join sep (x # xs)) = x"
  by (cases xs) simp_all

lemma dayName_cases:
  assumes "0 \<le> d" "d \<le> 6"
  shows "dayName d \<in> {''Sun'', ''Mon'', ''Tue'', ''Wed'', ''Thu'', ''Fri'', ''Sat''}"
proof -
  from assms have "d = 0 \<or> d = 1 \<or> d = 2 \<or> d = 3 \<or> d = 4 \<or> d = 5 \<or> d = 6" by arith
  then show ?thesis by (auto simp: dayName_def dayNames_def)
qed

lemma label_head:
  assumes "ds \<noteq> []" "list_all (\<lambda>d. 0 \<le> d \<and> d \<le> 6) ds"
  shows "take 3 (join '', '' (map dayName ds)) \<in> {''Sun'', ''Mon'', ''Tue'', ''Wed'', ''Thu'', ''Fri'', ''Sat''}"
proof -
  from assms obtain d ds' where ds: "ds = d # ds'" and d: "0 \<le> d" "d \<le> 6"
    by (cases ds) auto
  from dayName_cases [OF d] have len: "length (dayName d) = 3" by auto
  from take3_join [OF len] dayName_cases [OF d] show ?thesis by (simp add: ds)
qed

lemma label_not_special:
  assumes "ds \<noteq> []" "list_all (\<lambda>d. 0 \<le> d \<and> d \<le> 6) ds"
  shows "join '', '' (map dayName ds) \<noteq> ''Weekdays''"
    and "join '', '' (map dayName ds) \<noteq> ''Weekends''"
    and "join '', '' (map dayName ds) \<noteq> ''Every day''"
  using label_head [OF assms] by auto


lemma list_all_range_subset: "list_all (\<lambda>d. a \<le> d \<and> d \<le> b) ds \<Longrightarrow> set ds \<subseteq> {a..b :: int}"
  by (auto simp: list_all_iff)

lemma label_under_invariant:
  assumes "daysOfWeek h = Some ds" "sorted ds" "distinct ds" "list_all (\<lambda>d. 0 \<le> d \<and> d \<le> 6) ds"
  shows "getDaysOfWeekString h =
     (if ds = [] \<or> ds = [0, 1, 2, 3, 4, 5, 6] then ''Every day''
      else if ds = [1, 2, 3, 4, 5] then ''Weekdays''
      else if ds = [0, 6] then ''Weekends''
      else join '', '' (map dayName ds))"
proof -
  have seven: "length ds = 7 \<Longrightarrow> ds = [0, 1, 2, 3, 4, 5, 6]"
    using assms by (intro whole_week list_all_range_subset)
  have five: "length ds = 5 \<Longrightarrow> list_all (\<lambda>d. 1 \<le> d \<and> d \<le> 5) ds \<Longrightarrow> ds = [1, 2, 3, 4, 5]"
    using assms by (intro working_week list_all_range_subset)
  have two: "length ds = 2 \<Longrightarrow> 0 \<in> set ds \<Longrightarrow> 6 \<in> set ds \<Longrightarrow> ds = [0, 6]"
    using assms by (intro weekend)
  consider "ds = []" | "length ds = 7"
    | "ds \<noteq> []" "length ds \<noteq> 7" "length ds = 5 \<and> list_all (\<lambda>d. 1 \<le> d \<and> d \<le> 5) ds"
    | "ds \<noteq> []" "length ds \<noteq> 7" "\<not> (length ds = 5 \<and> list_all (\<lambda>d. 1 \<le> d \<and> d \<le> 5) ds)"
        "length ds = 2 \<and> 0 \<in> set ds \<and> 6 \<in> set ds"
    | "ds \<noteq> []" "length ds \<noteq> 7" "\<not> (length ds = 5 \<and> list_all (\<lambda>d. 1 \<le> d \<and> d \<le> 5) ds)"
        "\<not> (length ds = 2 \<and> 0 \<in> set ds \<and> 6 \<in> set ds)"
    by blast
  then show ?thesis
  proof cases
    case 1
    with assms(1) show ?thesis by (simp add: getDaysOfWeekString_def)
  next
    case 2
    with seven have "ds = [0, 1, 2, 3, 4, 5, 6]" by simp
    with assms(1) show ?thesis by (simp add: getDaysOfWeekString_def)
  next
    case 3
    with five have "ds = [1, 2, 3, 4, 5]" by simp
    with assms(1) show ?thesis by (simp add: getDaysOfWeekString_def)
  next
    case 4
    with two have "ds = [0, 6]" by simp
    with assms(1) show ?thesis by (simp add: getDaysOfWeekString_def)
  next
    case 5
    then have "ds \<noteq> [0, 1, 2, 3, 4, 5, 6]" "ds \<noteq> [1, 2, 3, 4, 5]" "ds \<noteq> [0, 6]" by auto
    with 5 assms(1) show ?thesis by (auto simp add: getDaysOfWeekString_def)
  qed
qed

text \<open>
  Claim C9. For a habit whose schedule satisfies the data-model invariant (ascending,
  without duplicates, every element from 0 to 6), \<^verbatim>\<open>getDaysOfWeekString\<close> returns
  "Weekdays" exactly for the schedule 1,2,3,4,5, "Weekends" exactly for 0,6, "Every day"
  exactly when the schedule is absent, empty or all seven days, and for every other
  schedule the abbreviations of its days, in the ascending order of the schedule, joined
  by a comma and a space.
\<close>

theorem C9_schedule_label:
  assumes "scheduleInvariant h"
  shows "(getDaysOfWeekString h = ''Weekdays'' \<longleftrightarrow> daysOfWeek h = Some [1, 2, 3, 4, 5])
    \<and> (getDaysOfWeekString h = ''Weekends'' \<longleftrightarrow> daysOfWeek h = Some [0, 6])
    \<and> (getDaysOfWeekString h = ''Every day'' \<longleftrightarrow>
          daysOfWeek h = None \<or> daysOfWeek h = Some [] \<or> daysOfWeek h = Some [0, 1, 2, 3, 4, 5, 6])
    \<and> (\<forall>ds. daysOfWeek h = Some ds \<and> ds \<noteq> [] \<and> ds \<noteq> [0, 1, 2, 3, 4, 5, 6]
             \<and> ds \<noteq> [1, 2, 3, 4, 5] \<and> ds \<noteq> [0, 6]
          \<longrightarrow> getDaysOfWeekString h = join '', '' (map dayName ds))"
proof (cases "daysOfWeek h")
  case None
  then show ?thesis by (simp add: getDaysOfWeekString_def)
next
  case (Some ds)
  with assms have inv: "sorted ds" "distinct ds" "list_all (\<lambda>d. 0 \<le> d \<and> d \<le> 6) ds"
    by (simp_all add: scheduleInvariant_def)
  note label = label_under_invariant [OF Some inv]
  show ?thesis
  proof (cases "ds = [] \<or> ds = [0, 1, 2, 3, 4, 5, 6] \<or> ds = [1, 2, 3, 4, 5] \<or> ds = [0, 6]")
    case True
    with Some label show ?thesis by auto
  next
    case False
    then have "ds \<noteq> []" by simp
    note other = label_not_special [OF this inv(3)]
    from False label have "getDaysOfWeekString h = join '', '' (map dayName ds)" by simp
    with False Some other show ?thesis by simp
  qed
qed

theorem C9_schedule_label_witness:
  "scheduleInvariant (sample_habit\<lparr>daysOfWeek := Some [1, 3, 5]\<rparr>)
   \<and> getDaysOfWeekString (sample_habit\<lparr>daysOfWeek := Some [1, 3, 5]\<rparr>) = ''Mon, Wed, Fri''
   \<and> scheduleInvariant (sample_habit\<lparr>daysOfWeek := Some [1, 2, 3, 4, 5]\<rparr>)
   \<and> getDaysOfWeekString (sample_habit\<lparr>daysOfWeek := Some [1, 2, 3, 4, 5]\<rparr>) = ''Weekdays''
   \<and> scheduleInvariant (sample_habit\<lparr>daysOfWeek := Some [0, 6]\<rparr>)
   \<and> getDaysOfWeekString (sample_habit\<lparr>daysOfWeek := Some [0, 6]\<rparr>) = ''Weekends''
   \<and> scheduleInvariant (sample_habit\<lparr>daysOfWeek := None\<rparr>)
   \<and> getDaysOfWeekString (sample_habit\<lparr>daysOfWeek := None\<rparr>) = ''Every day''"
proof -
  have i1: "scheduleInvariant (sample_habit\<lparr>daysOfWeek := Some [1, 3, 5]\<rparr>)"
    and i2: "scheduleInvariant (sample_habit\<lparr>daysOfWeek := Some [1, 2, 3, 4, 5]\<rparr>)"
    and i3: "scheduleInvariant (sample_habit\<lparr>daysOfWeek := Some [0, 6]\<rparr>)"
    and i4: "scheduleInvariant (sample_habit\<lparr>daysOfWeek := None\<rparr>)"
    by (simp_all add: scheduleInvariant_def)
  have j: "join '', '' (map dayName [1, 3, 5]) = ''Mon, Wed, Fri''"
    by (simp add: dayName_def dayNames_def)
  from C9_schedule_label [OF i1] C9_schedule_label [OF i2] C9_schedule_label [OF i3]
    C9_schedule_label [OF i4] i1 i2 i3 i4 j
  show ?thesis by simp
qed

section \<open>The current streak\<close>

declare streak_walk.simps [simp del]
declare allScheduledDaysCompleted.simps [simp del]
declare countScheduled.simps [simp del]

lemma msPerDay_pos: "0 < msPerDay"
  by (simp add: msPerDay_def)

lemma localDay_addDays: "localDay tz (addDays t n) = localDay tz t + n"
proof -
  have e: "t + n * msPerDay + tz = (t + tz) + n * msPerDay" by simp
  show ?thesis
    unfolding localDay_def addDays_def e using msPerDay_pos by simp
qed

lemma localDay_setHours0: "localDay tz (setHours0 tz t) = localDay tz t"
proof -
  have "t - (t + tz) mod msPerDay + tz = ((t + tz) div msPerDay) * msPerDay"
    by (simp add: minus_mod_eq_div_mult [symmetric])
  then show ?thesis
    using msPerDay_pos by (simp add: localDay_def setHours0_def)
qed

lemma localDay_newDateLocal: "localDay tz (newDateLocal tz k) = k"
  using msPerDay_pos by (simp add: localDay_def newDateLocal_def)

lemma isActiveOnDay_date_key: "isActiveOnDay tz h (DayDate t) = isActiveOnDay tz h (DayStr (localDay tz t))"
  by (simp add: isActiveOnDay_def getDay_def localDay_newDateLocal Let_def split: option.split)

lemma isActiveOnDay_schedule_only:
  "daysOfWeek h' = daysOfWeek h \<Longrightarrow> isActiveOnDay tz h' x = isActiveOnDay tz h x"
  by (simp add: isActiveOnDay_def)

lemma streak_walk_bound: "streak_walk tz h cur s chk n \<le> s + (365 - n)"
proof (induction tz h cur s chk n rule: streak_walk.induct)
  case (1 tz h cur s chk n)
  show ?case
  proof (cases "n < 365")
    case False
    then show ?thesis by (simp add: streak_walk.simps [of tz h cur s chk n])
  next
    case True
    note IH = "1.IH" [OF True refl]
    show ?thesis
      using True IH
      by (subst streak_walk.simps) (auto simp: Let_def split: if_splits)
  qed
qed


lemma isCompletedOn_key: "isCompletedOn tz h (DateStr k) = (k \<in> set (completions h))"
  by (simp add: isCompletedOn_def normalizeDate_def)

lemma normalizeDate_obj: "normalizeDate tz (DateObj t) = localDay tz t"
  by (simp add: normalizeDate_def)

lemma streak_walk_window:
  "(\<forall>t. isActiveOnDay tz h' (DayDate t) = isActiveOnDay tz h (DayDate t)) \<Longrightarrow>
   (\<forall>d. localDay tz cur - (364 - int n) \<le> d \<and> d \<le> localDay tz cur \<longrightarrow>
            (d \<in> set (completions h') \<longleftrightarrow> d \<in> set (completions h)))
         \<Longrightarrow> streak_walk tz h' cur s chk n = streak_walk tz h cur s chk n"
proof (induction tz h cur s chk n rule: streak_walk.induct)
  case (1 tz h cur s chk n)
  note sched = "1.prems"(1) and window = "1.prems"(2)
  show ?case
  proof (cases "n < 365")
    case False
    then show ?thesis
      unfolding streak_walk.simps [of tz h cur s chk n] streak_walk.simps [of tz h' cur s chk n]
      by (simp add: isCompletedOn_key normalizeDate_obj)
  next
    case True
    let ?k = "localDay tz cur"
    from True window have here: "?k \<in> set (completions h') \<longleftrightarrow> ?k \<in> set (completions h)"
      by simp
    have before: "\<forall>d. localDay tz (addDays cur (- 1)) - (364 - int (n + 1)) \<le> d
        \<and> d \<le> localDay tz (addDays cur (- 1)) \<longrightarrow>
        (d \<in> set (completions h') \<longleftrightarrow> d \<in> set (completions h))"
      using window True by (simp add: localDay_addDays)
    from sched have act: "isActiveOnDay tz h' (DayDate cur) = isActiveOnDay tz h (DayDate cur)"
      by blast
    note IH = "1.IH" [OF True refl]
    show ?thesis
    proof (cases "isActiveOnDay tz h (DayDate cur)")
      case inactive: False
      from IH(3) [OF inactive sched before] inactive act True show ?thesis
        unfolding streak_walk.simps [of tz h cur s chk n] streak_walk.simps [of tz h' cur s chk n]
        by (simp add: isCompletedOn_key normalizeDate_obj)
    next
      case active: True
      show ?thesis
      proof (cases "?k \<in> set (completions h)")
        case compl: True
        then have "isCompletedOn tz h (DateStr (normalizeDate tz (DateObj cur)))"
          by (simp add: isCompletedOn_key normalizeDate_obj)
        from IH(1) [OF active this sched before] compl here active act True show ?thesis
          unfolding streak_walk.simps [of tz h cur s chk n] streak_walk.simps [of tz h' cur s chk n]
          by (simp add: isCompletedOn_key normalizeDate_obj)
      next
        case missed: False
        then have nc: "\<not> isCompletedOn tz h (DateStr (normalizeDate tz (DateObj cur)))"
          by (simp add: isCompletedOn_key normalizeDate_obj)
        show ?thesis
        proof (cases chk)
          case True
          from IH(2) [OF active nc True sched before] missed here active act \<open>n < 365\<close> True show ?thesis
            unfolding streak_walk.simps [of tz h cur s chk n] streak_walk.simps [of tz h' cur s chk n]
            by (simp add: isCompletedOn_key normalizeDate_obj)
        next
          case False
          with missed here active act \<open>n < 365\<close> show ?thesis
            unfolding streak_walk.simps [of tz h cur s chk n] streak_walk.simps [of tz h' cur s chk n]
            by (simp add: isCompletedOn_key normalizeDate_obj)
        qed
      qed
    qed
  qed
qed

lemma streak_walk_no_completions:
  "completions h = [] \<Longrightarrow> streak_walk tz h cur s chk n = s"
proof (induction tz h cur s chk n rule: streak_walk.induct)
  case (1 tz h cur s chk n)
  show ?case
  proof (cases "n < 365")
    case False
    then show ?thesis by (simp add: streak_walk.simps [of tz h cur s chk n])
  next
    case True
    note IH = "1.IH" [OF True refl]
    from "1.prems" have nc: "\<not> isCompletedOn tz h (DateStr (normalizeDate tz (DateObj cur)))"
      by (simp add: isCompletedOn_key)
    show ?thesis
      using True IH(2,3) nc "1.prems"
      by (subst streak_walk.simps) (auto simp: Let_def)
  qed
qed


lemma streak_walk_full:
  "(\<forall>d. localDay tz cur - (364 - int n) \<le> d \<and> d \<le> localDay tz cur \<longrightarrow>
        isActiveOnDay tz h (DayStr d) \<and> d \<in> set (completions h))
   \<Longrightarrow> streak_walk tz h cur s chk n = s + (365 - n)"
proof (induction tz h cur s chk n rule: streak_walk.induct)
  case (1 tz h cur s chk n)
  show ?case
  proof (cases "n < 365")
    case False
    then show ?thesis
      unfolding streak_walk.simps [of tz h cur s chk n] by simp
  next
    case True
    with "1.prems" have here: "isActiveOnDay tz h (DayDate cur)" "localDay tz cur \<in> set (completions h)"
      by (simp_all add: isActiveOnDay_date_key)
    then have compl: "isCompletedOn tz h (DateStr (normalizeDate tz (DateObj cur)))"
      by (simp add: isCompletedOn_key normalizeDate_obj)
    have before: "\<forall>d. localDay tz (addDays cur (- 1)) - (364 - int (n + 1)) \<le> d
        \<and> d \<le> localDay tz (addDays cur (- 1)) \<longrightarrow>
        isActiveOnDay tz h (DayStr d) \<and> d \<in> set (completions h)"
      using "1.prems" True by (simp add: localDay_addDays)
    from "1.IH"(1) [OF True refl here(1) compl before] True here compl show ?thesis
      unfolding streak_walk.simps [of tz h cur s chk n]
      by (simp add: Let_def)
  qed
qed

lemma calculateStreak_walk:
  "calculateStreak c h = streak_walk (utcOffset c) h (setHours0 (utcOffset c) (now c)) 0 True 0"
  by (simp add: calculateStreak_def Let_def streak_walk_no_completions)

text \<open>
  Claim C5. \<^verbatim>\<open>calculateStreak\<close> returns 0 when there are no completions; its result
  never exceeds 365; and it examines only the 365 days that end today: two habits with
  the same schedule whose completions agree on those days have the same streak, whatever
  was completed earlier. When each of those 365 days is scheduled and completed the
  result is 365, however long the run is.
\<close>

theorem C5_streak_capped:
  "(completions h = [] \<longrightarrow> calculateStreak c h = 0)
   \<and> calculateStreak c h \<le> 365
   \<and> (daysOfWeek h' = daysOfWeek h
        \<and> (\<forall>d. localDay (utcOffset c) (now c) - 364 \<le> d \<and> d \<le> localDay (utcOffset c) (now c)
              \<longrightarrow> (d \<in> set (completions h') \<longleftrightarrow> d \<in> set (completions h)))
      \<longrightarrow> calculateStreak c h' = calculateStreak c h)
   \<and> ((\<forall>d. localDay (utcOffset c) (now c) - 364 \<le> d \<and> d \<le> localDay (utcOffset c) (now c)
          \<longrightarrow> isActiveOnDay (utcOffset c) h (DayStr d) \<and> d \<in> set (completions h))
      \<longrightarrow> calculateStreak c h = 365)"
proof (intro conjI impI)
  assume "\<forall>d. localDay (utcOffset c) (now c) - 364 \<le> d \<and> d \<le> localDay (utcOffset c) (now c)
          \<longrightarrow> isActiveOnDay (utcOffset c) h (DayStr d) \<and> d \<in> set (completions h)"
  then have "\<forall>d. localDay (utcOffset c) (setHours0 (utcOffset c) (now c)) - (364 - int 0) \<le> d
        \<and> d \<le> localDay (utcOffset c) (setHours0 (utcOffset c) (now c))
        \<longrightarrow> isActiveOnDay (utcOffset c) h (DayStr d) \<and> d \<in> set (completions h)"
    by (simp add: localDay_setHours0)
  from streak_walk_full [OF this, of 0 True]
  show "calculateStreak c h = 365" by (simp add: calculateStreak_walk)
next
  assume "completions h = []"
  then show "calculateStreak c h = 0" by (simp add: calculateStreak_def)
next
  from streak_walk_bound [of "utcOffset c" h "setHours0 (utcOffset c) (now c)" 0 True 0]
  show "calculateStreak c h \<le> 365" by (simp add: calculateStreak_walk)
next
  assume a: "daysOfWeek h' = daysOfWeek h
        \<and> (\<forall>d. localDay (utcOffset c) (now c) - 364 \<le> d \<and> d \<le> localDay (utcOffset c) (now c)
              \<longrightarrow> (d \<in> set (completions h') \<longleftrightarrow> d \<in> set (completions h)))"
  then have sched: "daysOfWeek h' = daysOfWeek h" by blast
  from a have window: "\<forall>d. localDay (utcOffset c) (setHours0 (utcOffset c) (now c)) - (364 - int 0) \<le> d
        \<and> d \<le> localDay (utcOffset c) (setHours0 (utcOffset c) (now c))
        \<longrightarrow> (d \<in> set (completions h') \<longleftrightarrow> d \<in> set (completions h))"
    by (simp add: localDay_setHours0)
  have "\<forall>t. isActiveOnDay (utcOffset c) h' (DayDate t) = isActiveOnDay (utcOffset c) h (DayDate t)"
    using isActiveOnDay_schedule_only [OF sched] by blast
  from streak_walk_window [OF this window]
  show "calculateStreak c h' = calculateStreak c h" by (simp add: calculateStreak_walk)
qed

theorem C5_streak_capped_witness:
  "calculateStreak sample_clock (daily_habit\<lparr>completions := []\<rparr>) = 0
   \<and> calculateStreak sample_clock daily_habit = 3
   \<and> calculateStreak sample_clock (daily_habit\<lparr>completions := [19000, 19737, 19738, 19739]\<rparr>) = 3
   \<and> length (completions (daily_habit\<lparr>completions := [19000 .. 19739]\<rparr>)) = 740
   \<and> calculateStreak sample_clock (daily_habit\<lparr>completions := [19000 .. 19739]\<rparr>) = 365"
proof -
  have all: "\<forall>d. localDay (utcOffset sample_clock) (now sample_clock) - 364 \<le> d
       \<and> d \<le> localDay (utcOffset sample_clock) (now sample_clock)
       \<longrightarrow> isActiveOnDay (utcOffset sample_clock) (daily_habit\<lparr>completions := [19000 .. 19739]\<rparr>) (DayStr d)
           \<and> d \<in> set (completions (daily_habit\<lparr>completions := [19000 .. 19739]\<rparr>))"
    by (simp add: sample_clock_def localDay_def msPerDay_def isActiveOnDay_def daily_habit_def
        del: upto_rec_numeral)
  have len: "length (completions (daily_habit\<lparr>completions := [19000 .. 19739]\<rparr>)) = 740"
    by (simp del: upto_rec_numeral)
  have long: "calculateStreak sample_clock (daily_habit\<lparr>completions := [19000 .. 19739]\<rparr>) = 365"
    using C5_streak_capped [of "daily_habit\<lparr>completions := [19000 .. 19739]\<rparr>" sample_clock] all
    by blast
  have today: "localDay (utcOffset sample_clock) (now sample_clock) = 19739"
    by (simp add: sample_clock_def localDay_def msPerDay_def)
  have same: "\<forall>d. localDay (utcOffset sample_clock) (now sample_clock) - 364 \<le> d
       \<and> d \<le> localDay (utcOffset sample_clock) (now sample_clock)
       \<longrightarrow> (d \<in> set (completions (daily_habit\<lparr>completions := [19000, 19737, 19738, 19739]\<rparr>))
            \<longleftrightarrow> d \<in> set (completions daily_habit))"
    unfolding today by (auto simp: daily_habit_def)
  have sched: "daysOfWeek (daily_habit\<lparr>completions := [19000, 19737, 19738, 19739]\<rparr>) = daysOfWeek daily_habit"
    by simp
  have three: "calculateStreak sample_clock daily_habit = 3" by code_simp
  from C5_streak_capped [of "daily_habit\<lparr>completions := []\<rparr>" sample_clock]
    C5_streak_capped [of daily_habit sample_clock
      "daily_habit\<lparr>completions := [19000, 19737, 19738, 19739]\<rparr>"]
    same sched three long len
  show ?thesis by (simp del: upto_rec_numeral)
qed

section \<open>Schedules that cover every day\<close>



lemma getDay_newDateLocal: "getDay tz (newDateLocal tz k) = weekdayOf k"
  by (simp add: getDay_def localDay_newDateLocal)





lemma LocalTZA_fixed: "fixedOffset c \<Longrightarrow> LocalTZA c t isUTC = utcOffset c"
  by (simp add: LocalTZA_def standardOffset_def fixedOffset_def)

lemma setDateNext_fixed: "fixedOffset c \<Longrightarrow> setDateNext c t = addDays t 1"
  by (simp add: setDateNext_def Let_def LocalTZA_fixed addDays_def)
















section \<open>The tolerance for an incomplete today\<close>

declare spec_streak_walk.simps [simp del]

lemma streak_walk_spec_after_today:
  "\<not> chk \<Longrightarrow> 0 < n \<Longrightarrow> streak_walk tz h cur s chk n = spec_streak_walk tz h cur s n"
proof (induction tz h cur s chk n rule: streak_walk.induct)
  case (1 tz h cur s chk n)
  show ?case
  proof (cases "n < 365")
    case False
    then show ?thesis
      unfolding streak_walk.simps [of tz h cur s chk n] spec_streak_walk.simps [of tz h cur s n]
      by simp
  next
    case True
    note IH = "1.IH" [OF True refl]
    from "1.prems" True IH show ?thesis
      unfolding streak_walk.simps [of tz h cur s chk n] spec_streak_walk.simps [of tz h cur s n]
      by (auto simp: Let_def isCompletedOn_def normalizeDate_def)
  qed
qed

lemma calculateStreak_spec_when_today_scheduled:
  assumes "isActiveOnDay (utcOffset c) h (DayDate (setHours0 (utcOffset c) (now c)))"
  shows "calculateStreak c h = spec_calculateStreak c h"
proof (cases "completions h = []")
  case True
  then show ?thesis by (simp add: calculateStreak_def spec_calculateStreak_def)
next
  case False
  let ?tz = "utcOffset c" and ?t = "setHours0 (utcOffset c) (now c)"
  have "streak_walk ?tz h ?t 0 True 0 = spec_streak_walk ?tz h ?t 0 0"
    unfolding streak_walk.simps [of ?tz h ?t 0 True 0] spec_streak_walk.simps [of ?tz h ?t 0 0]
    using assms by (simp add: Let_def isCompletedOn_def normalizeDate_def streak_walk_spec_after_today)
  with False show ?thesis by (simp add: calculateStreak_def spec_calculateStreak_def Let_def)
qed

text \<open>
  Claim C1 says that only today itself may be scheduled and incomplete without ending
  the walk, and that a scheduled, incomplete day before today always ends it. The loop
  clears \<^verbatim>\<open>checkingToday\<close> only on a scheduled day, so the tolerance passes to the first
  scheduled day the walk meets. On Wednesday 2024-01-17, for a habit scheduled on Mondays
  that was completed on 2024-01-08 and not on 2024-01-15, the walk passes the missed
  Monday and returns 1; the walk of the claim stops there with 0.
\<close>

theorem C1_leniency_reaches_past_days:
  "getDay (utcOffset sample_clock) (now sample_clock) = 3
   \<and> localDay (utcOffset sample_clock) (now sample_clock) = 19739
   \<and> isActiveOnDay (utcOffset sample_clock) monday_habit (DayStr 19737)
   \<and> \<not> isCompletedOn (utcOffset sample_clock) monday_habit (DateStr 19737)
   \<and> calculateStreak sample_clock monday_habit = 1
   \<and> spec_calculateStreak sample_clock monday_habit = 0"
proof -
  have "calculateStreak sample_clock monday_habit = 1" by code_simp
  moreover have "spec_calculateStreak sample_clock monday_habit = 0" by code_simp
  moreover have "getDay (utcOffset sample_clock) (now sample_clock) = 3"
    and "localDay (utcOffset sample_clock) (now sample_clock) = 19739"
    by (simp_all add: getDay_def weekdayOf_def localDay_def sample_clock_def msPerDay_def)
  moreover have "isActiveOnDay (utcOffset sample_clock) monday_habit (DayStr 19737)"
    and "\<not> isCompletedOn (utcOffset sample_clock) monday_habit (DateStr 19737)"
    by (simp_all add: isActiveOnDay_def isCompletedOn_def normalizeDate_def monday_habit_def
        getDay_newDateLocal weekdayOf_def)
  ultimately show ?thesis by simp
qed

section \<open>The longest streak\<close>

lemma localDay_newDate: "0 \<le> tz \<Longrightarrow> tz < msPerDay \<Longrightarrow> localDay tz (newDate k) = k"
  by (simp add: localDay_def newDate_def)

lemma localDay_newDate_west: "- msPerDay \<le> tz \<Longrightarrow> tz < 0 \<Longrightarrow> localDay tz (newDate k) = k - 1"
proof -
  assume a: "- msPerDay \<le> tz" "tz < 0"
  have e: "k * msPerDay + tz = (tz + msPerDay) + (k - 1) * msPerDay" by (simp add: algebra_simps)
  from a have z: "(tz + msPerDay) div msPerDay = 0" by simp
  have "(k * msPerDay + tz) div msPerDay = (k - 1) + (tz + msPerDay) div msPerDay"
    unfolding e using msPerDay_pos by simp
  with z show ?thesis by (simp add: localDay_def newDate_def)
qed

lemma addDays_newDate: "addDays (newDate k) 1 = newDate (k + 1)"
  by (simp add: addDays_def newDate_def algebra_simps)

lemma newDate_less: "(newDate a < newDate b) = (a < b)"
  using msPerDay_pos by (simp add: newDate_def)

lemma gap_scan_east:
  assumes fixed: "fixedOffset c" and tz: "0 \<le> utcOffset c" "utcOffset c < msPerDay"
  shows "allScheduledDaysCompleted c h (newDate a) (newDate b)
           = list_all (\<lambda>d. \<not> isActiveOnDay (utcOffset c) h (DayStr d)) [a .. b - 1]"
proof (induction "nat (b - a)" arbitrary: a)
  case 0
  then have "\<not> a < b" by simp
  then show ?case
    unfolding allScheduledDaysCompleted.simps [of c h "newDate a" "newDate b"]
    by (simp add: newDate_less)
next
  case (Suc n)
  then have less: "a < b" and n: "n = nat (b - (a + 1))" by simp_all
  have list: "[a .. b - 1] = a # [a + 1 .. b - 1]"
    using less by (simp add: upto_rec1)
  from Suc.hyps(1) [OF n] less show ?case
    unfolding allScheduledDaysCompleted.simps [of c h "newDate a" "newDate b"] list
    by (simp add: newDate_less addDays_newDate isActiveOnDay_date_key localDay_newDate [OF tz]
        LocalTZA_fixed [OF fixed] setDateNext_fixed [OF fixed])
qed

lemma gap_scan_west:
  assumes fixed: "fixedOffset c" and tz: "- msPerDay \<le> utcOffset c" "utcOffset c < 0"
  shows "allScheduledDaysCompleted c h (newDate a) (newDate b)
           = list_all (\<lambda>d. \<not> isActiveOnDay (utcOffset c) h (DayStr d)) [a - 1 .. b - 2]"
proof (induction "nat (b - a)" arbitrary: a)
  case 0
  then have "\<not> a < b" by simp
  then show ?case
    unfolding allScheduledDaysCompleted.simps [of c h "newDate a" "newDate b"]
    by (simp add: newDate_less)
next
  case (Suc n)
  then have less: "a < b" and n: "n = nat (b - (a + 1))" by simp_all
  have list: "[a - 1 .. b - 2] = (a - 1) # [a .. b - 2]"
    using less by (simp add: upto_rec1)
  from Suc.hyps(1) [OF n] less show ?case
    unfolding allScheduledDaysCompleted.simps [of c h "newDate a" "newDate b"] list
    by (simp add: newDate_less addDays_newDate isActiveOnDay_date_key localDay_newDate_west [OF tz]
        LocalTZA_fixed [OF fixed] setDateNext_fixed [OF fixed])
qed

lemma gap_west:
  assumes "fixedOffset c" "- msPerDay \<le> utcOffset c" "utcOffset c < 0"
  shows "allScheduledDaysCompleted c h (setDateNext c (newDate p)) (newDate k)
           = list_all (\<lambda>d. \<not> isActiveOnDay (utcOffset c) h (DayStr d)) [p .. k - 2]"
  by (simp add: setDateNext_fixed [OF assms(1)] addDays_newDate gap_scan_west [OF assms])

lemma gap_east:
  assumes "fixedOffset c" "0 \<le> utcOffset c" "utcOffset c < msPerDay"
  shows "allScheduledDaysCompleted c h (setDateNext c (newDate p)) (newDate k)
           = spec_gapUnscheduled (utcOffset c) h p k"
  by (simp add: setDateNext_fixed [OF assms(1)] addDays_newDate gap_scan_east [OF assms]
      spec_gapUnscheduled_def)

lemma longest_scan_east:
  assumes "fixedOffset c" "0 \<le> utcOffset c" "utcOffset c < msPerDay"
  shows "longest_scan c h p ks l t = spec_longest_scan (utcOffset c) h p ks l t"
  by (induction ks arbitrary: p l t) (simp_all add: Let_def gap_east [OF assms])

lemma longestStreakOf_east_of_utc:
  assumes "fixedOffset c" "0 \<le> utcOffset c" "utcOffset c < msPerDay"
  shows "longestStreakOf c h = spec_longestStreak (utcOffset c) h"
  by (simp add: longestStreakOf_def spec_longestStreak_def longest_scan_east [OF assms] split: list.split)

text \<open>
  Claim C2 says that two consecutive completion days continue a run exactly when no
  calendar day strictly between them is scheduled. \<^verbatim>\<open>getStatistics\<close> builds its dates
  with \<^verbatim>\<open>new Date(string)\<close>, which is midnight UTC, and reads their weekday in local
  time. In a zone whose offset does not change and lies at or east of UTC that is the
  weekday of the same calendar day (\<open>longestStreakOf_east_of_utc\<close>); west of UTC it is
  the weekday of the day before (\<open>gap_west\<close>). Five hours behind UTC, for a
  Monday-and-Wednesday habit completed on Monday 2024-01-15 and Wednesday 2024-01-17,
  the only day between them is an unscheduled Tuesday, yet the scan tests Monday, breaks
  the run and reports 1 where the claim gives 2.
\<close>

theorem C2_longest_streak_west_of_utc:
  "\<not> isActiveOnDay (utcOffset new_york_clock) mon_wed_habit (DayStr 19738)
   \<and> spec_gapUnscheduled (utcOffset new_york_clock) mon_wed_habit 19737 19739
   \<and> spec_longestStreak (utcOffset new_york_clock) mon_wed_habit = 2
   \<and> longestStreak (getStatistics new_york_clock mon_wed_habit) = 1
   \<and> longestStreak (getStatistics (new_york_clock\<lparr>utcOffset := 0\<rparr>) mon_wed_habit) = 2"
proof -
  have "longestStreakOf new_york_clock mon_wed_habit = 1" by code_simp
  then have "longestStreak (getStatistics new_york_clock mon_wed_habit) = 1"
    by (simp add: getStatistics_def Let_def)
  moreover have "longestStreakOf (new_york_clock\<lparr>utcOffset := 0\<rparr>) mon_wed_habit = 2" by code_simp
  then have "longestStreak (getStatistics (new_york_clock\<lparr>utcOffset := 0\<rparr>) mon_wed_habit) = 2"
    by (simp add: getStatistics_def Let_def)
  moreover have "spec_longestStreak (utcOffset new_york_clock) mon_wed_habit = 2" by code_simp
  moreover have "\<not> isActiveOnDay (utcOffset new_york_clock) mon_wed_habit (DayStr 19738)"
    by (simp add: isActiveOnDay_def mon_wed_habit_def getDay_newDateLocal weekdayOf_def)
  moreover have "spec_gapUnscheduled (utcOffset new_york_clock) mon_wed_habit 19737 19739"
    by (simp add: spec_gapUnscheduled_def isActiveOnDay_def mon_wed_habit_def getDay_newDateLocal weekdayOf_def)
  ultimately show ?thesis by simp
qed

section \<open>The completion rate\<close>









lemma div_shift: "0 < m \<Longrightarrow> (t - a * m) div m = t div m - (a::int)"
  using div_mult_self1 [of m t "- a"] by simp

lemma newDate_le_now: "(newDate a \<le> t) = (a \<le> toISODate t)"
proof -
  have "(t - a * msPerDay) div msPerDay = t div msPerDay - a"
    using msPerDay_pos by (rule div_shift)
  moreover have "(0 \<le> (t - a * msPerDay) div msPerDay) = (0 \<le> t - a * msPerDay)"
    using msPerDay_pos by (rule pos_imp_zdiv_nonneg_iff)
  ultimately have "(a * msPerDay \<le> t) = (a \<le> t div msPerDay)" by simp
  then show ?thesis by (simp add: newDate_def toISODate_def)
qed


text \<open>West of UTC the loop reads the weekday of the day before each day it counts.\<close>

lemma countScheduled_days_west:
  assumes fixed: "fixedOffset c" and tz: "- msPerDay \<le> utcOffset c" "utcOffset c < 0"
  shows "countScheduled c h (newDate a) t n
           = n + int (length (filter (\<lambda>d. isActiveOnDay (utcOffset c) h (DayStr d))
                                [a - 1 .. toISODate t - 1]))"
proof (induction "nat (toISODate t - a + 1)" arbitrary: a n)
  case 0
  then have "\<not> a \<le> toISODate t" by simp
  then show ?case
    unfolding countScheduled.simps [of c h "newDate a" t n]
    by (simp add: newDate_le_now)
next
  case (Suc m)
  then have le: "a \<le> toISODate t" and m: "m = nat (toISODate t - (a + 1) + 1)" by simp_all
  have list: "[a - 1 .. toISODate t - 1] = (a - 1) # [a .. toISODate t - 1]"
    using le by (simp add: upto_rec1)
  from le show ?case
    unfolding countScheduled.simps [of c h "newDate a" t n] list
    by (simp add: newDate_le_now addDays_newDate Suc.hyps(1) [OF m] isActiveOnDay_date_key
        localDay_newDate_west [OF tz] LocalTZA_fixed [OF fixed] setDateNext_fixed [OF fixed])
qed










end
